theory Spec2Isabelle
  imports Complex_Main "HOL-Library.Sublist"
begin

section \<open>Scoring functions (benchmarks/measures.py)\<close>

text \<open>
  Python strings are sequences of code points. The model uses \<^typ>\<open>string\<close>: a
  \<^typ>\<open>char\<close> stands for the code point \<open>of_char c\<close>, so the model covers the strings
  whose code points are below 256 (ASCII and Latin-1). On that range \<open>str.lower\<close>,
  \<open>str.split\<close> and the regular expression class \<open>\w\<close> act character by character, as
  the three tables below record. Python floats are modelled as exact rationals.
\<close>

definition is_space :: "char \<Rightarrow> bool" where
  \<comment> \<open>the separators of \<open>str.split()\<close>: the code points with \<open>str.isspace\<close>\<close>
  "is_space c = (let n = (of_char c :: nat) in
     (9 \<le> n \<and> n \<le> 13) \<or> (28 \<le> n \<and> n \<le> 32) \<or> n = 133 \<or> n = 160)"

definition is_word :: "char \<Rightarrow> bool" where
  \<comment> \<open>the class \<open>\w\<close> of \<open>re\<close> on \<open>str\<close> patterns: alphanumeric code points and the underscore\<close>
  "is_word c = (let n = (of_char c :: nat) in
     (48 \<le> n \<and> n \<le> 57) \<or> (65 \<le> n \<and> n \<le> 90) \<or> n = 95 \<or> (97 \<le> n \<and> n \<le> 122) \<or>
     n = 170 \<or> n = 178 \<or> n = 179 \<or> n = 181 \<or> n = 185 \<or> n = 186 \<or>
     (188 \<le> n \<and> n \<le> 190) \<or> (192 \<le> n \<and> n \<le> 214) \<or> (216 \<le> n \<and> n \<le> 246) \<or>
     (248 \<le> n \<and> n \<le> 255))"

definition is_punctuation :: "char \<Rightarrow> bool" where
  \<comment> \<open>membership in \<open>string.punctuation\<close>, the 32 ASCII punctuation characters\<close>
  "is_punctuation c = (let n = (of_char c :: nat) in
     (33 \<le> n \<and> n \<le> 47) \<or> (58 \<le> n \<and> n \<le> 64) \<or> (91 \<le> n \<and> n \<le> 96) \<or>
     (123 \<le> n \<and> n \<le> 126))"

definition lower_char :: "char \<Rightarrow> char" where
  "lower_char c = (let n = (of_char c :: nat) in
     if (65 \<le> n \<and> n \<le> 90) \<or> (192 \<le> n \<and> n \<le> 214) \<or> (216 \<le> n \<and> n \<le> 222)
     then char_of (n + 32) else c)"

definition lower :: "string \<Rightarrow> string" where
  "lower text = map lower_char text"

definition remove_punc :: "string \<Rightarrow> string" where
  "remove_punc text = filter (\<lambda>ch. \<not> is_punctuation ch) text"

function str_split :: "string \<Rightarrow> string list" where
  "str_split s =
     (case dropWhile is_space s of
        [] \<Rightarrow> []
      | c # cs \<Rightarrow> (c # takeWhile (\<lambda>x. \<not> is_space x) cs)
                  # str_split (dropWhile (\<lambda>x. \<not> is_space x) cs))"
  by pat_completeness auto
termination
proof (relation "measure length")
  show "wf (measure length)" by simp
next
  fix s :: string and c cs
  assume a: "dropWhile is_space s = c # cs"
  have "length (dropWhile (\<lambda>x. \<not> is_space x) cs) \<le> length cs"
    by (rule length_dropWhile_le)
  moreover have "length (dropWhile is_space s) \<le> length s"
    by (rule length_dropWhile_le)
  ultimately show "(dropWhile (\<lambda>x. \<not> is_space x) cs, s) \<in> measure length"
    using a by simp
qed

declare str_split.simps [simp del]

fun str_join :: "string \<Rightarrow> string list \<Rightarrow> string" where
  "str_join sep [] = []"
| "str_join sep [x] = x"
| "str_join sep (x # y # ys) = x @ sep @ str_join sep (y # ys)"

definition white_space_fix :: "string \<Rightarrow> string" where
  "white_space_fix text = str_join '' '' (str_split text)"

text \<open>
  \<open>re.sub(r'\b(a|an|the)\b', ' ', text)\<close>. The scan goes from left to right; \<open>p\<close> tells
  whether the character before the current position is a word character (at the start
  of the text there is none). A word boundary \<open>\b\<close> lies between two positions of which
  exactly one holds a word character. At each position the alternatives are tried in the
  order written, and the first one that is followed by a boundary is taken; the match is
  replaced by one space and the scan resumes behind it.
\<close>

definition articles :: "string list" where
  "articles = [''a'', ''an'', ''the'']"

definition word_hd :: "string \<Rightarrow> bool" where
  "word_hd xs = (case xs of [] \<Rightarrow> False | c # _ \<Rightarrow> is_word c)"

fun try_alts :: "string list \<Rightarrow> string \<Rightarrow> nat option" where
  "try_alts [] xs = None"
| "try_alts (a # as) xs =
     (if prefix a xs \<and> (is_word (last a) \<noteq> word_hd (drop (length a) xs))
      then Some (length a) else try_alts as xs)"

definition match_at :: "bool \<Rightarrow> string \<Rightarrow> nat option" where
  "match_at p xs = (if p \<noteq> word_hd xs then try_alts articles xs else None)"

function remove_articles_from :: "bool \<Rightarrow> string \<Rightarrow> string" where
  "remove_articles_from p [] = []"
| "remove_articles_from p (c # cs) =
     (case match_at p (c # cs) of
        Some n \<Rightarrow> CHR '' '' # remove_articles_from (is_word (last (take n (c # cs)))) (drop n (c # cs))
      | None \<Rightarrow> c # remove_articles_from (is_word c) cs)"
  by pat_completeness auto
termination
proof (relation "measure (\<lambda>(p, xs). length xs)")
  show "wf (measure (\<lambda>(p, xs). length xs))" by simp
next
  fix p :: bool and c :: char and cs :: string and n :: nat
  assume "match_at p (c # cs) = Some n"
  then have "0 < n" by (auto simp: match_at_def articles_def split: if_splits)
  then show "((is_word (last (take n (c # cs))), drop n (c # cs)), (p, c # cs))
      \<in> measure (\<lambda>(p, xs). length xs)"
    by simp
next
  fix p :: bool and c :: char and cs :: string
  show "((is_word c, cs), (p, c # cs)) \<in> measure (\<lambda>(p, xs). length xs)" by simp
qed

definition remove_articles :: "string \<Rightarrow> string" where
  "remove_articles text = remove_articles_from False text"

definition normalize_answer :: "string \<Rightarrow> string" where
  "normalize_answer s = white_space_fix (remove_articles (remove_punc (lower s)))"

text \<open>
  Exceptions are values: the class name and the text that \<open>str(e)\<close> gives. Only
  instances of \<open>Exception\<close> are modelled (what \<open>except Exception\<close> catches); signals such
  as \<open>KeyboardInterrupt\<close> are not.
\<close>

datatype exn = Exn (exn_class: string) (exn_str: string)

definition truediv :: "rat \<Rightarrow> rat \<Rightarrow> exn + rat" where
  \<comment> \<open>Python's \<open>/\<close>: raises on a zero divisor\<close>
  "truediv a b =
     (if b = 0 then Inl (Exn ''ZeroDivisionError'' ''division by zero'') else Inr (a / b))"

definition num_same :: "string list \<Rightarrow> string list \<Rightarrow> nat" where
  \<comment> \<open>\<open>sum((Counter(p) & Counter(g)).values())\<close>: for each distinct token of \<open>p\<close> the smaller
      of its two counts\<close>
  "num_same p g = sum_list (map (\<lambda>t. min (count_list p t) (count_list g t)) (remdups p))"

definition token_ratio :: "nat \<Rightarrow> string list \<Rightarrow> exn + rat" where
  \<comment> \<open>\<open>num_same / len(tokens) if tokens else 0\<close>\<close>
  "token_ratio n tokens =
     (if tokens \<noteq> [] then truediv (of_nat n) (of_nat (length tokens)) else Inr 0)"

definition f1_score :: "string \<Rightarrow> string \<Rightarrow> exn + rat" where
  "f1_score prediction ground_truth =
     (let prediction_tokens = str_split (normalize_answer prediction);
          ground_truth_tokens = str_split (normalize_answer ground_truth);
          n = num_same prediction_tokens ground_truth_tokens
      in if n = 0 then Inr 0
         else case token_ratio n prediction_tokens of
                Inl e \<Rightarrow> Inl e
              | Inr precision \<Rightarrow>
                  (case token_ratio n ground_truth_tokens of
                     Inl e \<Rightarrow> Inl e
                   | Inr recall \<Rightarrow>
                       if precision + recall = 0 then Inr 0
                       else truediv (2 * precision * recall) (precision + recall)))"

definition exact_match_score :: "string \<Rightarrow> string \<Rightarrow> rat" where
  "exact_match_score prediction ground_truth =
     (if normalize_answer prediction = normalize_answer ground_truth then 1 else 0)"

section \<open>Benchmark run (benchmarks/benchmark.py, benchmarks/hotpotqa.py)\<close>

text \<open>
  Values that travel through a run: \<open>None\<close>, a string, or any other object, which is
  carried by the text \<open>str()\<close> gives for it.
\<close>

datatype pyval = PyNone | PyStr string | PyObj string

datatype verdict = PASS | FAIL

type_synonym item = "string \<rightharpoonup> pyval"

datatype sample_id = FromItem pyval | FromIndex nat

text \<open>The dictionary \<open>evaluate\<close> returns, keys \<open>em\<close>, \<open>f1\<close> and \<open>result\<close>.\<close>

record eval_result =
  em :: rat
  f1 :: rat
  result :: verdict

text \<open>
  One entry of \<open>results\<close>: the keys of \<open>eval_result\<close> and \<open>id\<close>, \<open>question\<close>,
  \<open>prediction\<close>, \<open>ground_truth\<close>, and \<open>error\<close>, which only a failed sample has.
\<close>

record sample_result = eval_result +
  r_id :: sample_id
  r_question :: pyval
  r_prediction :: pyval
  r_ground_truth :: pyval
  r_error :: "string option"

text \<open>The \<open>metrics\<close> dictionary: keys \<open>exact_match\<close>, \<open>f1\<close>, \<open>num_samples\<close>, \<open>num_passed\<close>.\<close>

record metrics =
  m_exact_match :: rat
  m_f1 :: rat
  m_num_samples :: nat
  m_num_passed :: nat

record run_output =
  run_metrics :: metrics
  run_results :: "sample_result list"

record benchmark =
  data_folder :: string
  train_data :: "item list option"
  validate_data :: "item list option"
  test_data :: "item list option"

definition ValueError :: "string \<Rightarrow> exn" where
  "ValueError msg = Exn ''ValueError'' msg"

definition KeyError :: "string \<Rightarrow> exn" where
  \<comment> \<open>\<open>str\<close> of a \<open>KeyError\<close> is the \<open>repr\<close> of the key\<close>
  "KeyError k = Exn ''KeyError'' ([CHR 0x27] @ k @ [CHR 0x27])"

definition py_str :: "pyval \<Rightarrow> string" where
  "py_str v = (case v of PyNone \<Rightarrow> ''None'' | PyStr s \<Rightarrow> s | PyObj s \<Rightarrow> s)"

definition evaluate :: "pyval \<Rightarrow> pyval \<Rightarrow> exn + eval_result" where
  "evaluate prediction label =
     (let pred_str = (if prediction \<noteq> PyNone then py_str prediction else []);
          label_str = (if label \<noteq> PyNone then py_str label else []);
          em_value = exact_match_score pred_str label_str
      in case f1_score pred_str label_str of
           Inl e \<Rightarrow> Inl e
         | Inr f1_value \<Rightarrow>
             Inr \<lparr>em = em_value, f1 = f1_value,
                  result = (if em_value = 1 then PASS else FAIL)\<rparr>)"

definition item_id :: "item \<Rightarrow> nat \<Rightarrow> sample_id" where
  \<comment> \<open>\<open>item.get('_id', i)\<close>\<close>
  "item_id item i = (case item ''_id'' of Some v \<Rightarrow> FromItem v | None \<Rightarrow> FromIndex i)"

definition item_context :: "item \<Rightarrow> pyval" where
  \<comment> \<open>\<open>item.get('context', [])\<close>\<close>
  "item_context item = (case item ''context'' of Some v \<Rightarrow> v | None \<Rightarrow> PyObj ''[]'')"

definition success_result ::
  "nat \<Rightarrow> item \<Rightarrow> pyval \<Rightarrow> pyval \<Rightarrow> pyval \<Rightarrow> eval_result \<Rightarrow> sample_result" where
  "success_result i item question ground_truth prediction ev =
     \<lparr>em = em ev, f1 = f1 ev, result = result ev,
      r_id = item_id item i, r_question = question, r_prediction = prediction,
      r_ground_truth = ground_truth, r_error = None\<rparr>"

definition failure_result :: "nat \<Rightarrow> item \<Rightarrow> pyval \<Rightarrow> pyval \<Rightarrow> exn \<Rightarrow> sample_result" where
  "failure_result i item question ground_truth e =
     \<lparr>em = 0, f1 = 0, result = FAIL,
      r_id = item_id item i, r_question = question, r_prediction = PyStr [],
      r_ground_truth = ground_truth, r_error = Some (exn_str e)\<rparr>"

text \<open>
  The loop of \<open>run\<close>. The callback is any stateful procedure: it takes its state, the
  question and the context, and returns a prediction or raises, with its new state.
  \<open>item['question']\<close> and \<open>item['answer']\<close> stand outside the \<open>try\<close>, so a missing key
  ends the run; an exception of the callback or of \<open>evaluate\<close> is caught. Log lines are
  not modelled.
\<close>

fun run_samples ::
  "('s \<Rightarrow> pyval \<Rightarrow> pyval \<Rightarrow> (exn + pyval) \<times> 's) \<Rightarrow> nat \<Rightarrow> item list \<Rightarrow>
   sample_result list \<Rightarrow> rat \<Rightarrow> rat \<Rightarrow> 's \<Rightarrow>
   (exn + sample_result list \<times> rat \<times> rat) \<times> 's" where
  "run_samples callback i [] results total_em total_f1 st =
     (Inr (results, total_em, total_f1), st)"
| "run_samples callback i (item # rest) results total_em total_f1 st =
     (case item ''question'' of
        None \<Rightarrow> (Inl (KeyError ''question''), st)
      | Some question \<Rightarrow>
          (case item ''answer'' of
             None \<Rightarrow> (Inl (KeyError ''answer''), st)
           | Some ground_truth \<Rightarrow>
               (case callback st question (item_context item) of
                  (Inl e, st') \<Rightarrow>
                    run_samples callback (i + 1) rest
                      (results @ [failure_result i item question ground_truth e])
                      total_em total_f1 st'
                | (Inr prediction, st') \<Rightarrow>
                    (case evaluate prediction ground_truth of
                       Inl e \<Rightarrow>
                         run_samples callback (i + 1) rest
                           (results @ [failure_result i item question ground_truth e])
                           total_em total_f1 st'
                     | Inr ev \<Rightarrow>
                         run_samples callback (i + 1) rest
                           (results @ [success_result i item question ground_truth prediction ev])
                           (total_em + em ev) (total_f1 + f1 ev) st'))))"

definition slice_to :: "int \<Rightarrow> 'a list \<Rightarrow> 'a list" where
  \<comment> \<open>\<open>data[:k]\<close>; a negative \<open>k\<close> counts from the end\<close>
  "slice_to k data = (if 0 \<le> k then take (nat k) data else take (length data - nat (- k)) data)"

definition select_data :: "benchmark \<Rightarrow> string \<Rightarrow> exn + item list" where
  "select_data b dataset =
     (if dataset = ''train'' \<or> dataset = ''validate'' \<or> dataset = ''test'' then
        (case (if dataset = ''train'' then train_data b
               else if dataset = ''validate'' then validate_data b
               else test_data b) of
           None \<Rightarrow> Inl (ValueError (''Dataset '' @ [CHR 0x22] @ dataset @ [CHR 0x22] @ '' not loaded''))
         | Some data \<Rightarrow> Inr data)
      else Inl (ValueError (''Unknown dataset: '' @ dataset)))"

definition run ::
  "benchmark \<Rightarrow> ('s \<Rightarrow> pyval \<Rightarrow> pyval \<Rightarrow> (exn + pyval) \<times> 's) \<Rightarrow> string \<Rightarrow> int option \<Rightarrow> 's \<Rightarrow>
   (exn + run_output) \<times> 's" where
  "run b callback dataset num_samples st =
     (case select_data b dataset of
        Inl e \<Rightarrow> (Inl e, st)
      | Inr data0 \<Rightarrow>
          (let data = (case num_samples of None \<Rightarrow> data0 | Some k \<Rightarrow> slice_to k data0) in
           case run_samples callback 0 data [] 0 0 st of
             (Inl e, st') \<Rightarrow> (Inl e, st')
           | (Inr (results, total_em, total_f1), st') \<Rightarrow>
               (let n = length results;
                    avg_em = (if n > 0 then total_em / of_nat n else 0);
                    avg_f1 = (if n > 0 then total_f1 / of_nat n else 0)
                in (Inr \<lparr>run_metrics =
                           \<lparr>m_exact_match = avg_em, m_f1 = avg_f1, m_num_samples = n,
                            m_num_passed = length (filter (\<lambda>r. result r = PASS) results)\<rparr>,
                         run_results = results\<rparr>, st'))))"

section \<open>Dataset files (benchmarks/tools.py, \<open>HotpotQA.load_dataset\<close>)\<close>














section \<open>Model configuration store (models/base_model.py)\<close>








section \<open>Provider clients and the model factory (models/*.py)\<close>













text \<open>
  Modelled from the spec: the retry loop behind the decorator on every \<open>__call__\<close>,
  \<open>@retry(reraise=True, stop=stop_after_attempt(3), wait=wait_exponential(...),
  retry=retry_if_exception_type(Exception))\<close>, belongs to the library tenacity and is
  not in the sources; only its parameters are. An attempt is the decorated body run
  once; \<open>attempt_number\<close> counts from 1. After an attempt that raised, the stop condition
  is asked: when it holds the last exception is raised again (\<open>reraise=True\<close>) or wrapped
  in a \<open>RetryError\<close>, otherwise the body runs again. The result carries the number of
  attempts made. The pauses between attempts are not modelled.
\<close>

definition stop_after_attempt :: "nat \<Rightarrow> nat \<Rightarrow> bool" where
  "stop_after_attempt max_attempt_number attempt_number = (attempt_number \<ge> max_attempt_number)"

function retry ::
  "bool \<Rightarrow> nat \<Rightarrow> ('s \<Rightarrow> (exn + 'a) \<times> 's) \<Rightarrow> nat \<Rightarrow> 's \<Rightarrow> (exn + 'a) \<times> nat \<times> 's" where
  "retry reraise max_attempt_number attempt attempt_number st =
     (case attempt st of
        (Inr v, st') \<Rightarrow> (Inr v, attempt_number, st')
      | (Inl e, st') \<Rightarrow>
          if stop_after_attempt max_attempt_number attempt_number then
            ((if reraise then Inl e else Inl (Exn ''RetryError'' (exn_str e))), attempt_number, st')
          else retry reraise max_attempt_number attempt (attempt_number + 1) st')"
  by pat_completeness auto
termination
  by (relation "measure (\<lambda>(reraise, max_attempt_number, attempt, attempt_number, st).
        max_attempt_number - attempt_number)")
     (auto simp: stop_after_attempt_def)

declare retry.simps [simp del]

definition call_once ::
  "('s \<Rightarrow> (exn + 'r) \<times> 's) \<Rightarrow> ('r \<Rightarrow> exn + string) \<Rightarrow> 's \<Rightarrow> (exn + string) \<times> 's" where
  \<comment> \<open>the body of \<open>__call__\<close>: one request through the SDK client, then \<open>_extract_content\<close>\<close>
  "call_once request extract_content st =
     (case request st of
        (Inl e, st') \<Rightarrow> (Inl e, st')
      | (Inr response, st') \<Rightarrow> (extract_content response, st'))"

definition invoke ::
  "('s \<Rightarrow> (exn + 'r) \<times> 's) \<Rightarrow> ('r \<Rightarrow> exn + string) \<Rightarrow> 's \<Rightarrow> (exn + string) \<times> nat \<times> 's" where
  "invoke request extract_content st = retry True 3 (call_once request extract_content) 1 st"

section \<open>Notions used to state and prove the properties\<close>

text \<open>
  The alternatives of a pattern are \<open>good\<close> when none is empty and all consist of word
  characters, as the three articles do. A \<open>token\<close> is what \<open>str.split()\<close> yields: a
  non-empty string without separators.
\<close>

definition good_alts :: "string list \<Rightarrow> bool" where
  "good_alts as = (\<forall>a\<in>set as. a \<noteq> [] \<and> (\<forall>c\<in>set a. is_word c))"

definition token :: "string \<Rightarrow> bool" where
  "token w = (w \<noteq> [] \<and> (\<forall>c\<in>set w. \<not> is_space c))"



section \<open>Lemmas about normalisation\<close>

lemma is_space_not_word: "is_space c \<Longrightarrow> \<not> is_word c"
  by (auto simp: is_space_def is_word_def Let_def)

lemma blank_is_space: "is_space CHR '' ''"
  by (simp add: is_space_def)

lemma blank_not_word: "\<not> is_word CHR '' ''"
  by (simp add: is_word_def)

lemma blank_not_punctuation: "\<not> is_punctuation CHR '' ''"
  by (simp add: is_punctuation_def)

lemma lower_char_blank: "lower_char CHR '' '' = CHR '' ''"
  by (simp add: lower_char_def)

lemma lower_char_idem: "lower_char (lower_char c) = lower_char c"
  by (auto simp: lower_char_def Let_def)

lemma articles_good: "good_alts articles"
  by (simp add: good_alts_def articles_def is_word_def)

lemma prefix_append_nonword:
  assumes "\<forall>ch\<in>set a. is_word ch" and "\<not> is_word c"
  shows "prefix a (xs @ c # ys) \<longleftrightarrow> prefix a xs"
proof
  assume p: "prefix a (xs @ c # ys)"
  show "prefix a xs"
  proof (cases "length a \<le> length xs")
    case True
    with p show ?thesis by (metis prefix_length_prefix prefix_append prefixI) 
  next
    case False
    then have "length xs < length a" by simp
    from p obtain zs where "xs @ c # ys = a @ zs" by (auto simp: prefix_def)
    with \<open>length xs < length a\<close> have "a ! length xs = c"
      by (metis nth_append nth_append_length)
    with \<open>length xs < length a\<close> have "c \<in> set a" by (metis nth_mem)
    with assms show ?thesis by blast
  qed
next
  assume "prefix a xs"
  then show "prefix a (xs @ c # ys)" by (simp add: prefix_prefix)
qed

lemma word_hd_drop_append:
  assumes "\<not> is_word c" and "n \<le> length xs"
  shows "word_hd (drop n (xs @ c # ys)) = word_hd (drop n xs)"
proof (cases "drop n xs")
  case Nil
  with assms show ?thesis by (simp add: word_hd_def)
next
  case (Cons d ds)
  with assms show ?thesis by (simp add: word_hd_def)
qed

lemma try_alts_append_nonword:
  assumes "good_alts as" and "\<not> is_word c"
  shows "try_alts as (xs @ c # ys) = try_alts as xs"
  using assms(1)
proof (induction as)
  case Nil
  show ?case by simp
next
  case (Cons a as)
  then have ga: "\<forall>ch\<in>set a. is_word ch" and gas: "good_alts as"
    by (simp_all add: good_alts_def)
  have pre: "prefix a (xs @ c # ys) \<longleftrightarrow> prefix a xs"
    using ga assms(2) by (rule prefix_append_nonword)
  have "prefix a xs \<Longrightarrow> word_hd (drop (length a) (xs @ c # ys)) = word_hd (drop (length a) xs)"
    using assms(2) by (intro word_hd_drop_append) (auto simp: prefix_def)
  with pre Cons.IH[OF gas] show ?case by auto
qed

lemma try_alts_Nil: "good_alts as \<Longrightarrow> try_alts as [] = None"
  by (induction as) (auto simp: good_alts_def)

lemma match_at_bounds:
  "match_at p xs = Some n \<Longrightarrow> 0 < n \<and> n \<le> length xs"
  by (auto simp: match_at_def articles_def prefix_def split: if_splits)

lemma match_at_append_nonword:
  assumes "\<not> is_word c" and "xs \<noteq> []"
  shows "match_at p (xs @ c # ys) = match_at p xs"
proof -
  from assms(2) have "word_hd (xs @ c # ys) = word_hd xs"
    by (cases xs) (simp_all add: word_hd_def)
  then show ?thesis
    using assms(1) by (simp add: match_at_def try_alts_append_nonword[OF articles_good])
qed

lemma match_at_nonword: "\<not> is_word c \<Longrightarrow> match_at p (c # ys) = None"
  using try_alts_append_nonword[OF articles_good, of c "[]" ys]
  by (simp add: match_at_def try_alts_Nil[OF articles_good])

lemma drop_append_le: "n \<le> length zs \<Longrightarrow> drop n (zs @ ws) = drop n zs @ ws"
  by simp

lemma take_append_le: "n \<le> length zs \<Longrightarrow> take n (zs @ ws) = take n zs"
  by simp

lemma remove_articles_from_append:
  "\<not> is_word c \<Longrightarrow>
   remove_articles_from p (xs @ c # ys) =
     remove_articles_from p xs @ c # remove_articles_from False ys"
proof (induction p xs rule: remove_articles_from.induct)
  case (1 p)
  then show ?case by (simp add: match_at_nonword)
next
  case (2 p x xs)
  have m: "match_at p ((x # xs) @ c # ys) = match_at p (x # xs)"
    using "2.prems" by (rule match_at_append_nonword) simp
  show ?case
  proof (cases "match_at p (x # xs)")
    case None
    with m "2.IH"(1)[OF None "2.prems"] show ?thesis by simp
  next
    case (Some n)
    then have n: "0 < n" "n \<le> length (x # xs)" using match_at_bounds by blast+
    have d: "drop n ((x # xs) @ c # ys) = drop n (x # xs) @ c # ys"
      by (rule drop_append_le) (rule n(2))
    have t: "take n ((x # xs) @ c # ys) = take n (x # xs)"
      by (rule take_append_le) (rule n(2))
    have "remove_articles_from p ((x # xs) @ c # ys) =
        CHR '' '' # remove_articles_from (is_word (last (take n ((x # xs) @ c # ys))))
          (drop n ((x # xs) @ c # ys))"
      using m Some by simp
    also have "\<dots> = CHR '' '' # remove_articles_from (is_word (last (take n (x # xs))))
          (drop n (x # xs) @ c # ys)"
      by (simp only: d t)
    also have "\<dots> = CHR '' '' # (remove_articles_from (is_word (last (take n (x # xs))))
          (drop n (x # xs)) @ c # remove_articles_from False ys)"
      by (simp only: "2.IH"(2)[OF Some "2.prems"])
    also have "\<dots> = remove_articles_from p (x # xs) @ c # remove_articles_from False ys"
      using Some by simp
    finally show ?thesis .
  qed
qed

lemma remove_articles_from_length: "length (remove_articles_from p xs) \<le> length xs"
proof (induction p xs rule: remove_articles_from.induct)
  case (1 p)
  show ?case by simp
next
  case (2 p c cs)
  show ?case
  proof (cases "match_at p (c # cs)")
    case None
    with "2.IH"(1)[OF None] show ?thesis by simp
  next
    case (Some n)
    then have "0 < n" using match_at_bounds by blast
    with "2.IH"(2)[OF Some] Some show ?thesis
      by (simp del: drop_Suc_Cons take_Suc_Cons) 
  qed
qed

lemma remove_articles_from_set:
  "set (remove_articles_from p xs) \<subseteq> insert CHR '' '' (set xs)"
proof (induction p xs rule: remove_articles_from.induct)
  case (1 p)
  show ?case by simp
next
  case (2 p c cs)
  show ?case
  proof (cases "match_at p (c # cs)")
    case None
    with "2.IH"(1)[OF None] show ?thesis by auto
  next
    case (Some n)
    have "set (drop n (c # cs)) \<subseteq> set (c # cs)" by (rule set_drop_subset)
    with "2.IH"(2)[OF Some] Some show ?thesis
      by (simp del: drop_Suc_Cons take_Suc_Cons) blast
  qed
qed

lemma try_alts_word_run:
  assumes "good_alts as" and "\<forall>c\<in>set w. is_word c"
  shows "try_alts as w = (if w \<in> set as then Some (length w) else None)"
  using assms(1)
proof (induction as)
  case Nil
  show ?case by simp
next
  case (Cons a as)
  then have ga: "a \<noteq> []" "\<forall>ch\<in>set a. is_word ch" and gas: "good_alts as"
    by (simp_all add: good_alts_def)
  have "prefix a w \<and> (is_word (last a) \<noteq> word_hd (drop (length a) w)) \<longleftrightarrow> a = w"
  proof
    assume h: "prefix a w \<and> (is_word (last a) \<noteq> word_hd (drop (length a) w))"
    from ga have "is_word (last a)" by simp
    with h have nw: "\<not> word_hd (drop (length a) w)" by simp
    have "drop (length a) w = []"
    proof (cases "drop (length a) w")
      case Nil
      then show ?thesis .
    next
      case (Cons d ds)
      then have "d \<in> set w" by (metis in_set_dropD list.set_intros(1))
      with assms(2) Cons nw show ?thesis by (simp add: word_hd_def)
    qed
    with h show "a = w" by (auto simp: prefix_def)
  next
    assume "a = w"
    with ga show "prefix a w \<and> (is_word (last a) \<noteq> word_hd (drop (length a) w))"
      by (simp add: word_hd_def)
  qed
  with Cons.IH[OF gas] show ?case by auto
qed

lemma remove_articles_from_word_after:
  "\<forall>c\<in>set w. is_word c \<Longrightarrow> remove_articles_from True w = w"
proof (induction w)
  case Nil
  show ?case by simp
next
  case (Cons c cs)
  then have "match_at True (c # cs) = None" by (simp add: match_at_def word_hd_def)
  with Cons show ?case by simp
qed

lemma remove_articles_from_word_run:
  assumes "\<forall>c\<in>set w. is_word c"
  shows "remove_articles_from False w = (if w \<in> set articles then '' '' else w)"
proof (cases w)
  case Nil
  then show ?thesis by (simp add: articles_def)
next
  case (Cons c cs)
  with assms have "word_hd w" by (simp add: word_hd_def)
  then have m: "match_at False w = (if w \<in> set articles then Some (length w) else None)"
    using try_alts_word_run[OF articles_good assms] by (simp add: match_at_def)
  show ?thesis
  proof (cases "w \<in> set articles")
    case True
    with m Cons show ?thesis by (simp del: drop_Suc_Cons take_Suc_Cons)
  next
    case False
    from assms Cons have "is_word c" "\<forall>c\<in>set cs. is_word c" by simp_all
    with m False Cons show ?thesis by (simp add: remove_articles_from_word_after)
  qed
qed

lemma remove_articles_from_blank: "remove_articles_from False '' '' = '' ''"
  using remove_articles_from_append[OF blank_not_word, of False "[]" "[]"] by simp

lemma remove_articles_from_fixed_append:
  assumes "\<not> is_word c"
  shows "remove_articles_from False (xs @ c # ys) = xs @ c # ys \<longleftrightarrow>
         remove_articles_from False xs = xs \<and> remove_articles_from False ys = ys"
proof
  assume "remove_articles_from False (xs @ c # ys) = xs @ c # ys"
  then have e: "remove_articles_from False xs @ c # remove_articles_from False ys = xs @ c # ys"
    by (simp add: remove_articles_from_append[OF assms])
  then have "length (remove_articles_from False xs) + length (remove_articles_from False ys)
      = length xs + length ys"
    by (metis add_Suc_right length_Cons length_append nat.inject)
  moreover have "length (remove_articles_from False xs) \<le> length xs"
    and "length (remove_articles_from False ys) \<le> length ys"
    by (rule remove_articles_from_length)+
  ultimately have "length (remove_articles_from False xs) = length xs" by linarith
  with e show "remove_articles_from False xs = xs \<and> remove_articles_from False ys = ys"
    by simp
next
  assume "remove_articles_from False xs = xs \<and> remove_articles_from False ys = ys"
  then show "remove_articles_from False (xs @ c # ys) = xs @ c # ys"
    by (simp add: remove_articles_from_append[OF assms])
qed

lemma remove_articles_from_idem:
  "remove_articles_from False (remove_articles_from False u) = remove_articles_from False u"
proof (induction u rule: length_induct)
  case (1 u)
  define w where "w = takeWhile is_word u"
  have w: "\<forall>c\<in>set w. is_word c" unfolding w_def by (auto dest: set_takeWhileD)
  have ww: "remove_articles_from False (remove_articles_from False w) = remove_articles_from False w"
  proof (cases "w \<in> set articles")
    case True
    then have "remove_articles_from False w = '' ''"
      using remove_articles_from_word_run[OF w] by simp
    then show ?thesis by (simp only: remove_articles_from_blank)
  next
    case False
    then have "remove_articles_from False w = w"
      using remove_articles_from_word_run[OF w] by simp
    then show ?thesis by simp
  qed
  show ?case
  proof (cases "dropWhile is_word u")
    case Nil
    then have "u = w" unfolding w_def by (metis append_Nil2 takeWhile_dropWhile_id)
    with ww show ?thesis by simp
  next
    case (Cons c rest)
    then have c: "\<not> is_word c" by (metis hd_dropWhile list.sel(1) list.distinct(1))
    from Cons have u: "u = w @ c # rest" unfolding w_def by (metis takeWhile_dropWhile_id)
    then have "length rest < length u" by simp
    with 1 have ih: "remove_articles_from False (remove_articles_from False rest)
        = remove_articles_from False rest" by blast
    show ?thesis
      unfolding u by (simp add: remove_articles_from_append[OF c] ww ih)
  qed
qed

lemma remove_articles_from_fixed_skip:
  "\<forall>c\<in>set xs. \<not> is_word c \<Longrightarrow>
   remove_articles_from False (xs @ ys) = xs @ ys \<longleftrightarrow> remove_articles_from False ys = ys"
proof (induction xs)
  case Nil
  show ?case by simp
next
  case (Cons x xs)
  then have x: "\<not> is_word x" by simp
  from remove_articles_from_fixed_append[OF x, of "[]" "xs @ ys"] Cons show ?case by simp
qed

lemma str_split_Nil: "dropWhile is_space s = [] \<Longrightarrow> str_split s = []"
  by (subst str_split.simps) (simp only: list.case)

lemma str_split_Cons:
  "dropWhile is_space s = c # cs \<Longrightarrow>
   str_split s = (c # takeWhile (\<lambda>x. \<not> is_space x) cs)
                 # str_split (dropWhile (\<lambda>x. \<not> is_space x) cs)"
  by (subst str_split.simps) (simp only: list.case)

lemma str_split_tokens_fixed:
  "remove_articles_from False t = t \<Longrightarrow>
   \<forall>tok\<in>set (str_split t). remove_articles_from False tok = tok"
proof (induction t rule: str_split.induct)
  case (1 s)
  have sp: "\<forall>c\<in>set (takeWhile is_space s). \<not> is_word c"
    by (auto dest: set_takeWhileD is_space_not_word)
  have "s = takeWhile is_space s @ dropWhile is_space s" by simp
  with remove_articles_from_fixed_skip[OF sp, of "dropWhile is_space s"] "1.prems"
  have d: "remove_articles_from False (dropWhile is_space s) = dropWhile is_space s" by simp
  show ?case
  proof (cases "dropWhile is_space s")
    case Nil
    then show ?thesis by (simp only: str_split_Nil) simp
  next
    case (Cons c cs)
    define tok where "tok = c # takeWhile (\<lambda>x. \<not> is_space x) cs"
    define rest where "rest = dropWhile (\<lambda>x. \<not> is_space x) cs"
    have dec: "dropWhile is_space s = tok @ rest" unfolding tok_def rest_def Cons by simp
    have "remove_articles_from False tok = tok \<and> remove_articles_from False rest = rest"
    proof (cases rest)
      case Nil
      with d dec show ?thesis by simp
    next
      case (Cons b bs)
      then have "is_space b" unfolding rest_def by (metis hd_dropWhile list.sel(1) list.distinct(1))
      then have b: "\<not> is_word b" by (rule is_space_not_word)
      from d dec Cons have "remove_articles_from False (tok @ b # bs) = tok @ b # bs" by simp
      then have "remove_articles_from False tok = tok" "remove_articles_from False bs = bs"
        using remove_articles_from_fixed_append[OF b] by blast+
      moreover have "remove_articles_from False (b # bs) = b # bs"
        using remove_articles_from_fixed_append[OF b, of "[]" bs] calculation(2) by simp
      ultimately show ?thesis using Cons by simp
    qed
    moreover have "str_split s = tok # str_split rest"
      unfolding tok_def rest_def using Cons by (rule str_split_Cons)
    moreover have "\<forall>tok\<in>set (str_split rest). remove_articles_from False tok = tok"
      using "1.IH"[OF Cons] calculation(1) unfolding rest_def by simp
    ultimately show ?thesis by simp
  qed
qed

lemma str_join_fixed:
  "\<forall>tok\<in>set toks. remove_articles_from False tok = tok \<Longrightarrow>
   remove_articles_from False (str_join '' '' toks) = str_join '' '' toks"
proof (induction "'' ''" toks rule: str_join.induct)
  case 1
  show ?case by simp
next
  case (2 x)
  then show ?case by simp
next
  case (3 x y ys)
  then show ?case
    using remove_articles_from_fixed_append[OF blank_not_word, of x "str_join '' '' (y # ys)"]
    by simp
qed

lemma str_split_tokens: "\<forall>w\<in>set (str_split s). token w"
proof (induction s rule: str_split.induct)
  case (1 s)
  show ?case
  proof (cases "dropWhile is_space s")
    case Nil
    then show ?thesis by (simp only: str_split_Nil) simp
  next
    case (Cons c cs)
    then have "\<not> is_space c" by (metis hd_dropWhile list.sel(1) list.distinct(1))
    then have "token (c # takeWhile (\<lambda>x. \<not> is_space x) cs)"
      by (auto simp: token_def dest: set_takeWhileD)
    with "1.IH"[OF Cons] show ?thesis by (simp only: str_split_Cons[OF Cons]) simp
  qed
qed

lemma str_split_skip: "is_space b \<Longrightarrow> str_split (b # zs) = str_split zs"
  by (subst str_split.simps, subst (2) str_split.simps) simp

lemma str_split_token_append:
  assumes "token w"
  shows "str_split (w @ CHR '' '' # zs) = w # str_split zs"
    and "str_split w = [w]"
proof -
  from assms obtain c cs where w: "w = c # cs" and c: "\<not> is_space c"
    and cs: "\<forall>x\<in>set cs. \<not> is_space x"
    by (cases w) (auto simp: token_def)
  have "dropWhile is_space (w @ CHR '' '' # zs) = c # (cs @ CHR '' '' # zs)"
    using w c by simp
  from str_split_Cons[OF this]
  have "str_split (w @ CHR '' '' # zs) = w # str_split (CHR '' '' # zs)"
    using cs w blank_is_space by (simp add: takeWhile_append1 dropWhile_append1 takeWhile_tail dropWhile_append2)
  then show "str_split (w @ CHR '' '' # zs) = w # str_split zs"
    by (simp add: str_split_skip[OF blank_is_space])
  have tk: "takeWhile (\<lambda>x. \<not> is_space x) cs = cs" using cs by simp
  have dr: "dropWhile (\<lambda>x. \<not> is_space x) cs = []" using cs by simp
  have e: "str_split [] = []" by (simp add: str_split_Nil)
  have "dropWhile is_space w = c # cs" using w c by simp
  from str_split_Cons[OF this] show "str_split w = [w]"
    by (simp only: tk dr e w)
qed

lemma str_split_join:
  "\<forall>w\<in>set toks. token w \<Longrightarrow> str_split (str_join '' '' toks) = toks"
proof (induction "'' ''" toks rule: str_join.induct)
  case 1
  show ?case by (simp add: str_split_Nil)
next
  case (2 x)
  then show ?case by (simp add: str_split_token_append(2))
next
  case (3 x y ys)
  then show ?case by (simp add: str_split_token_append(1))
qed

lemma white_space_fix_idem: "white_space_fix (white_space_fix t) = white_space_fix t"
  by (simp add: white_space_fix_def str_split_join str_split_tokens)

lemma str_join_set: "set (str_join '' '' toks) \<subseteq> insert CHR '' '' (\<Union>(set ` set toks))"
  by (induction "'' ''" toks rule: str_join.induct) auto

lemma str_split_set: "\<Union>(set ` set (str_split s)) \<subseteq> set s"
proof (induction s rule: str_split.induct)
  case (1 s)
  show ?case
  proof (cases "dropWhile is_space s")
    case Nil
    then show ?thesis by (simp only: str_split_Nil) simp
  next
    case (Cons c cs)
    have "set (dropWhile is_space s) \<subseteq> set s" by (auto dest: set_dropWhileD)
    with Cons have a: "c \<in> set s" "set cs \<subseteq> set s" by auto
    have "set (takeWhile (\<lambda>x. \<not> is_space x) cs) \<subseteq> set cs" by (auto dest: set_takeWhileD)
    moreover have "set (dropWhile (\<lambda>x. \<not> is_space x) cs) \<subseteq> set cs" by (auto dest: set_dropWhileD)
    ultimately show ?thesis
      using "1.IH"[OF Cons] a by (simp only: str_split_Cons[OF Cons]) auto
  qed
qed

lemma white_space_fix_set: "set (white_space_fix t) \<subseteq> insert CHR '' '' (set t)"
  using str_join_set[of "str_split t"] str_split_set[of t]
  by (auto simp: white_space_fix_def)

lemma normalize_answer_chars:
  assumes "c \<in> set (normalize_answer s)"
  shows "lower_char c = c" and "\<not> is_punctuation c"
proof -
  from assms white_space_fix_set have "c = CHR '' '' \<or> c \<in> set (remove_articles (remove_punc (lower s)))"
    unfolding normalize_answer_def by blast
  with remove_articles_from_set have "c = CHR '' '' \<or> c \<in> set (remove_punc (lower s))"
    unfolding remove_articles_def by blast
  then have "c = CHR '' '' \<or> (c \<in> lower_char ` set s \<and> \<not> is_punctuation c)"
    by (auto simp: remove_punc_def lower_def)
  then show "lower_char c = c" and "\<not> is_punctuation c"
    by (auto simp: lower_char_idem lower_char_blank blank_not_punctuation)
qed

lemma normalize_answer_fixed_articles:
  "remove_articles (normalize_answer s) = normalize_answer s"
  unfolding normalize_answer_def remove_articles_def white_space_fix_def
  by (intro str_join_fixed str_split_tokens_fixed remove_articles_from_idem)

section \<open>Lemmas about the F1 score\<close>

lemma sum_count_remdups: "sum_list (map (count_list p) (remdups p)) = length p"
  by (simp add: sum_list_distinct_conv_sum_set sum_count_set)

lemma num_same_le_left: "num_same p g \<le> length p"
proof -
  have "num_same p g \<le> sum_list (map (count_list p) (remdups p))"
    unfolding num_same_def by (rule sum_list_mono) simp
  then show ?thesis by (simp add: sum_count_remdups)
qed

lemma num_same_le_right: "num_same p g \<le> length g"
proof -
  have "num_same p g = sum (\<lambda>t. min (count_list p t) (count_list g t)) (set p)"
    unfolding num_same_def by (simp add: sum_list_distinct_conv_sum_set)
  also have "\<dots> \<le> sum (count_list g) (set p)"
    by (rule sum_mono) simp
  also have "\<dots> \<le> sum (count_list g) (set p \<union> set g)"
    by (rule sum_mono2) auto
  also have "\<dots> = length g"
    by (rule sum_count_set) auto
  finally show ?thesis .
qed

lemma token_ratio_pos:
  assumes "0 < n" and "n \<le> length toks"
  shows "token_ratio n toks = Inr (of_nat n / of_nat (length toks))"
    and "0 < (of_nat n / of_nat (length toks) :: rat)"
    and "(of_nat n / of_nat (length toks) :: rat) \<le> 1"
proof -
  from assms have l: "0 < length toks" by linarith
  then have "toks \<noteq> []" by auto
  with l show "token_ratio n toks = Inr (of_nat n / of_nat (length toks))"
    by (simp add: token_ratio_def truediv_def)
  from assms(1) l show "0 < (of_nat n / of_nat (length toks) :: rat)" by simp
  from assms(2) l show "(of_nat n / of_nat (length toks) :: rat) \<le> 1" by simp
qed

lemma harmonic_mean_bounds:
  fixes a b :: rat
  assumes "0 < a" "a \<le> 1" "0 < b" "b \<le> 1"
  shows "0 \<le> 2 * a * b / (a + b)" and "2 * a * b / (a + b) \<le> 1"
proof -
  from assms show "0 \<le> 2 * a * b / (a + b)" by simp
  have "a * b \<le> a * 1" using assms by (intro mult_left_mono) simp_all
  moreover have "a * b \<le> 1 * b" using assms by (intro mult_right_mono) simp_all
  ultimately have "2 * a * b \<le> a + b" by simp
  moreover have "0 < a + b" using assms by simp
  ultimately show "2 * a * b / (a + b) \<le> 1" by (simp add: divide_le_eq)
qed

lemma f1_score_zero:
  "num_same (str_split (normalize_answer p)) (str_split (normalize_answer g)) = 0 \<Longrightarrow>
   f1_score p g = Inr 0"
  by (simp add: f1_score_def)

lemma f1_score_pos:
  assumes "num_same (str_split (normalize_answer p)) (str_split (normalize_answer g)) \<noteq> 0"
    and "token_ratio (num_same (str_split (normalize_answer p)) (str_split (normalize_answer g)))
           (str_split (normalize_answer p)) = Inr pr"
    and "token_ratio (num_same (str_split (normalize_answer p)) (str_split (normalize_answer g)))
           (str_split (normalize_answer g)) = Inr rc"
    and "pr + rc \<noteq> 0"
  shows "f1_score p g = Inr (2 * pr * rc / (pr + rc))"
  using assms by (simp add: f1_score_def Let_def truediv_def)



section \<open>Lemmas about the benchmark run and the dataset files\<close>





section \<open>Lemmas about the configuration store, the factory and the retry policy\<close>




lemma retry_success:
  "attempt st = (Inr v, st') \<Longrightarrow> retry reraise m attempt n st = (Inr v, n, st')"
  by (subst retry.simps) simp

lemma retry_again:
  "attempt st = (Inl e, st') \<Longrightarrow> n < m \<Longrightarrow>
   retry reraise m attempt n st = retry reraise m attempt (n + 1) st'"
  by (subst retry.simps) (simp add: stop_after_attempt_def)

lemma retry_stop:
  "attempt st = (Inl e, st') \<Longrightarrow> m \<le> n \<Longrightarrow> retry True m attempt n st = (Inl e, n, st')"
  by (subst retry.simps) (simp add: stop_after_attempt_def)

lemma retry_last:
  "attempt st = (r, st') \<Longrightarrow> retry True m attempt m st = (r, m, st')"
  by (cases r) (simp_all add: retry_success retry_stop)

lemma invoke_cases:
  fixes request :: "'s \<Rightarrow> (exn + 'r) \<times> 's"
  shows "(call_once request extract_content st = (Inr v, s1) \<longrightarrow>
      invoke request extract_content st = (Inr v, 1, s1)) \<and>
   (call_once request extract_content st = (Inl e1, s1) \<and>
    call_once request extract_content s1 = (Inr v, s2) \<longrightarrow>
      invoke request extract_content st = (Inr v, 2, s2)) \<and>
   (call_once request extract_content st = (Inl e1, s1) \<and>
    call_once request extract_content s1 = (Inl e2, s2) \<and>
    call_once request extract_content s2 = (r3, s3) \<longrightarrow>
      invoke request extract_content st = (r3, 3, s3))"
proof (intro conjI impI)
  assume "call_once request extract_content st = (Inr v, s1)"
  then show "invoke request extract_content st = (Inr v, 1, s1)"
    unfolding invoke_def by (rule retry_success)
next
  assume h: "call_once request extract_content st = (Inl e1, s1) \<and>
    call_once request extract_content s1 = (Inr v, s2)"
  then have "invoke request extract_content st =
      retry True 3 (call_once request extract_content) (1 + 1) s1"
    unfolding invoke_def by (intro retry_again) simp_all
  also have "\<dots> = (Inr v, 1 + 1, s2)"
    using h by (intro retry_success) simp
  finally show "invoke request extract_content st = (Inr v, 2, s2)" by simp
next
  assume h: "call_once request extract_content st = (Inl e1, s1) \<and>
    call_once request extract_content s1 = (Inl e2, s2) \<and>
    call_once request extract_content s2 = (r3, s3)"
  then have "invoke request extract_content st =
      retry True 3 (call_once request extract_content) (1 + 1) s1"
    unfolding invoke_def by (intro retry_again) simp_all
  also have "\<dots> = retry True 3 (call_once request extract_content) (1 + 1 + 1) s2"
    using h by (intro retry_again) simp_all
  also have "\<dots> = retry True 3 (call_once request extract_content) 3 s2"
    by (simp add: numeral_3_eq_3)
  also have "\<dots> = (r3, 3, s3)"
    using h by (intro retry_last) simp
  finally show "invoke request extract_content st = (r3, 3, s3)" .
qed

section \<open>The properties\<close>

subsection \<open>C1: the worked examples of the token F1 score\<close>

text \<open>
  Claim C1 says that \<open>f1("a b c", "b c d")\<close> returns 0.5 and that \<open>f1("light blue", "blue")\<close>
  has precision 0.5, recall 1.0 and F1 = 2/3. The second example holds. The first does
  not: normalisation removes the article \<open>a\<close>, so the prediction has the two tokens
  \<open>b\<close> and \<open>c\<close>, both found in the truth; precision is 1, recall is 2/3 and the score
  is 4/5. The theorem states both examples as the code computes them.
\<close>

theorem f1_score_worked_examples:
  "normalize_answer ''a b c'' = ''b c'' \<and>
   token_ratio (num_same (str_split (normalize_answer ''a b c''))
       (str_split (normalize_answer ''b c d'')))
     (str_split (normalize_answer ''a b c'')) = Inr 1 \<and>
   token_ratio (num_same (str_split (normalize_answer ''a b c''))
       (str_split (normalize_answer ''b c d'')))
     (str_split (normalize_answer ''b c d'')) = Inr (2 / 3) \<and>
   f1_score ''a b c'' ''b c d'' = Inr (4 / 5) \<and>
   token_ratio (num_same (str_split (normalize_answer ''light blue''))
       (str_split (normalize_answer ''blue'')))
     (str_split (normalize_answer ''light blue'')) = Inr (1 / 2) \<and>
   token_ratio (num_same (str_split (normalize_answer ''light blue''))
       (str_split (normalize_answer ''blue'')))
     (str_split (normalize_answer ''blue'')) = Inr 1 \<and>
   f1_score ''light blue'' ''blue'' = Inr (2 / 3)"
  by code_simp


text \<open>The value the claim gives for the first example is not the one computed.\<close>

theorem f1_score_abc_counterexample:
  "f1_score ''a b c'' ''b c d'' \<noteq> Inr (1 / 2)"
  by code_simp


subsection \<open>C2: one failing sample does not end the run\<close>







subsection \<open>C3: the configuration store returns the cached instance\<close>





subsection \<open>C4: the factory dispatches on the registered provider\<close>





subsection \<open>C5: at most three attempts, the last exception raised unchanged\<close>

text \<open>
  Claim C5. An invocation makes between one and three attempts. If the first attempt
  returns, or the first raises and the second returns, that value is the result and no
  further attempt is made. If the first two attempts raise, the outcome of the third is
  the outcome of the invocation: its value, or its exception, unchanged.
\<close>

theorem invoke_retries_three_times:
  fixes request :: "'s \<Rightarrow> (exn + 'r) \<times> 's"
  shows "1 \<le> fst (snd (invoke request extract_content st)) \<and>
   fst (snd (invoke request extract_content st)) \<le> 3 \<and>
   (call_once request extract_content st = (Inr v, s1) \<longrightarrow>
      invoke request extract_content st = (Inr v, 1, s1)) \<and>
   (call_once request extract_content st = (Inl e1, s1) \<and>
    call_once request extract_content s1 = (Inr v, s2) \<longrightarrow>
      invoke request extract_content st = (Inr v, 2, s2)) \<and>
   (call_once request extract_content st = (Inl e1, s1) \<and>
    call_once request extract_content s1 = (Inl e2, s2) \<and>
    call_once request extract_content s2 = (r3, s3) \<longrightarrow>
      invoke request extract_content st = (r3, 3, s3))"
proof -
  define f where "f = call_once request extract_content"
  obtain r1 t1 where a1: "f st = (r1, t1)" by (cases "f st")
  obtain r2 t2 where a2: "f t1 = (r2, t2)" by (cases "f t1")
  obtain r3' t3 where a3: "f t2 = (r3', t3)" by (cases "f t2")
  have "fst (snd (invoke request extract_content st)) \<in> {1, 2, 3}"
  proof (cases r1)
    case (Inr x)
    with a1 invoke_cases[where request = request and extract_content = extract_content
        and st = st and v = x and ?s1.0 = t1] show ?thesis
      unfolding f_def by simp
  next
    case l1: (Inl x1)
    show ?thesis
    proof (cases r2)
      case (Inr x)
      with l1 a1 a2 invoke_cases[where request = request and extract_content = extract_content
          and st = st and v = x and ?s1.0 = t1 and ?e1.0 = x1 and ?s2.0 = t2] show ?thesis
        unfolding f_def by simp
    next
      case (Inl x2)
      with l1 a1 a2 a3 invoke_cases[where request = request and extract_content = extract_content
          and st = st and ?s1.0 = t1 and ?e1.0 = x1 and ?s2.0 = t2 and ?e2.0 = x2
          and ?r3.0 = r3' and ?s3.0 = t3]
      show ?thesis unfolding f_def by simp
    qed
  qed
  then have "1 \<le> fst (snd (invoke request extract_content st)) \<and>
      fst (snd (invoke request extract_content st)) \<le> 3" by auto
  with invoke_cases[where request = request and extract_content = extract_content
      and st = st and v = v and ?s1.0 = s1 and ?e1.0 = e1 and ?s2.0 = s2 and ?e2.0 = e2
      and ?r3.0 = r3 and ?s3.0 = s3]
  show ?thesis by blast
qed


text \<open>
  Three instances: a request that always raises, one that raises once, one that
  returns at once.
\<close>

theorem invoke_retries_three_times_witness:
  "invoke (\<lambda>n::nat. (Inl (Exn ''TimeoutError'' (replicate n CHR ''x'')), n + 1)) (\<lambda>r::string. Inr r) 0
     = (Inl (Exn ''TimeoutError'' ''xx''), 3, 3) \<and>
   invoke (\<lambda>n::nat. (if n < 1 then Inl (Exn ''TimeoutError'' []) else Inr ''hello'', n + 1))
       (\<lambda>r::string. Inr r) 0
     = (Inr ''hello'', 2, 2) \<and>
   invoke (\<lambda>n::nat. (Inr ''hello'', n + 1)) (\<lambda>r::string. Inr r) 0 = (Inr ''hello'', 1, 1)"
proof -
  let ?f = "\<lambda>n::nat. (Inl (Exn ''TimeoutError'' (replicate n CHR ''x'')) :: exn + string, n + 1)"
  let ?g = "\<lambda>n::nat. (if n < 1 then Inl (Exn ''TimeoutError'' []) else Inr ''hello'', n + 1)"
  let ?h = "\<lambda>n::nat. (Inr ''hello'' :: exn + string, n + 1)"
  let ?x = "\<lambda>r::string. (Inr r :: exn + string)"
  have a: "call_once ?f ?x 0 = (Inl (Exn ''TimeoutError'' []), 1) \<and>
     call_once ?f ?x 1 = (Inl (Exn ''TimeoutError'' ''x''), 2) \<and>
     call_once ?f ?x 2 = (Inl (Exn ''TimeoutError'' ''xx''), 3)"
    by (simp add: call_once_def numeral_2_eq_2)
  have b: "call_once ?g ?x 0 = (Inl (Exn ''TimeoutError'' []), 1) \<and>
     call_once ?g ?x 1 = (Inr ''hello'', 2)"
    by (simp add: call_once_def)
  have c: "call_once ?h ?x 0 = (Inr ''hello'', 1)"
    by (simp add: call_once_def)
  from a invoke_retries_three_times[where request = ?f and extract_content = ?x and st = 0
      and ?s1.0 = 1 and ?s2.0 = 2 and ?s3.0 = 3 and ?e1.0 = "Exn ''TimeoutError'' []"
      and ?e2.0 = "Exn ''TimeoutError'' ''x''" and ?r3.0 = "Inl (Exn ''TimeoutError'' ''xx'')"]
  have 1: "invoke ?f ?x 0 = (Inl (Exn ''TimeoutError'' ''xx''), 3, 3)" by blast
  from b invoke_retries_three_times[where request = ?g and extract_content = ?x and st = 0
      and ?s1.0 = 1 and ?s2.0 = 2 and ?e1.0 = "Exn ''TimeoutError'' []" and v = "''hello''"]
  have 2: "invoke ?g ?x 0 = (Inr ''hello'', 2, 2)" by blast
  from c invoke_retries_three_times[where request = ?h and extract_content = ?x and st = 0
      and ?s1.0 = 1 and v = "''hello''"]
  have 3: "invoke ?h ?x 0 = (Inr ''hello'', 1, 1)" by blast
  from 1 2 3 show ?thesis by blast
qed


subsection \<open>C6: an unknown or unloaded partition is refused\<close>

text \<open>
  Claim C6. For a name other than \<open>train\<close>, \<open>validate\<close> and \<open>test\<close>, and for one of these
  names whose partition is \<open>None\<close>, \<open>run\<close> raises \<open>ValueError\<close>. No result dictionary is
  returned, and the callback is not invoked: the outcome is the same for every
  callback, and the callback's state is the one \<open>run\<close> was given.
\<close>

theorem run_rejects_partition:
  "(dataset \<noteq> ''train'' \<and> dataset \<noteq> ''validate'' \<and> dataset \<noteq> ''test'' \<longrightarrow>
      run b callback dataset num_samples st =
        (Inl (Exn ''ValueError'' (''Unknown dataset: '' @ dataset)), st)) \<and>
   (dataset = ''train'' \<and> train_data b = None \<or>
    dataset = ''validate'' \<and> validate_data b = None \<or>
    dataset = ''test'' \<and> test_data b = None \<longrightarrow>
      run b callback dataset num_samples st =
        (Inl (Exn ''ValueError'' (''Dataset '' @ [CHR 0x22] @ dataset @ [CHR 0x22] @ '' not loaded'')), st))"
  by (auto simp: run_def select_data_def ValueError_def)


text \<open>An instance of each case, with a callback that counts its calls.\<close>

theorem run_rejects_partition_witness:
  "run \<lparr>data_folder = ''data'', train_data = None, validate_data = None, test_data = None\<rparr>
       (\<lambda>n q c. (Inr (PyStr ''x''), Suc n)) ''dev'' None (0::nat) =
     (Inl (Exn ''ValueError'' ''Unknown dataset: dev''), 0) \<and>
   run \<lparr>data_folder = ''data'', train_data = None, validate_data = None, test_data = None\<rparr>
       (\<lambda>n q c. (Inr (PyStr ''x''), Suc n)) ''test'' None (0::nat) =
     (Inl (Exn ''ValueError'' (''Dataset '' @ [CHR 0x22] @ ''test'' @ [CHR 0x22] @ '' not loaded'')), 0)"
  using run_rejects_partition[of "''dev''"
      "\<lparr>data_folder = ''data'', train_data = None, validate_data = None, test_data = None\<rparr>"
      "\<lambda>n q c. (Inr (PyStr ''x''), Suc n)" None "0::nat"]
    run_rejects_partition[of "''test''"
      "\<lparr>data_folder = ''data'', train_data = None, validate_data = None, test_data = None\<rparr>"
      "\<lambda>n q c. (Inr (PyStr ''x''), Suc n)" None "0::nat"]
  by simp


subsection \<open>C7: loading a dataset\<close>





subsection \<open>C8: normalisation is idempotent\<close>

text \<open>
  Claim C8. Normalising a normalised string changes nothing: for every string \<open>s\<close>,
  \<open>normalize_answer (normalize_answer s) = normalize_answer s\<close>.
\<close>

theorem normalize_answer_idempotent:
  "normalize_answer (normalize_answer s) = normalize_answer s"
proof -
  have "lower (normalize_answer s) = normalize_answer s"
    unfolding lower_def by (rule map_idI) (rule normalize_answer_chars(1))
  moreover have "remove_punc (normalize_answer s) = normalize_answer s"
    unfolding remove_punc_def by (simp add: normalize_answer_chars(2))
  moreover have "white_space_fix (normalize_answer s) = normalize_answer s"
    unfolding normalize_answer_def by (rule white_space_fix_idem)
  ultimately show ?thesis
    by (simp add: normalize_answer_def[of "normalize_answer s"] normalize_answer_fixed_articles)
qed


subsection \<open>C9: the Ollama client and \<open>NO_PROXY\<close>\<close>







subsection \<open>C10: the F1 score is total and lies between 0 and 1\<close>

text \<open>
  Claim C10. \<open>f1_score\<close> never raises and its value lies in \<open>[0, 1]\<close>. If either token
  list is empty, no token is shared; if no token is shared the value is 0, returned
  before any division; otherwise both token lists are non-empty, both quotients are
  defined, their sum is positive, and the value is their harmonic mean.
\<close>

theorem f1_score_total_and_bounded:
  "(\<exists>r. f1_score prediction ground_truth = Inr r \<and> 0 \<le> r \<and> r \<le> 1) \<and>
   (str_split (normalize_answer prediction) = [] \<or> str_split (normalize_answer ground_truth) = []
      \<longrightarrow> num_same (str_split (normalize_answer prediction))
            (str_split (normalize_answer ground_truth)) = 0) \<and>
   (num_same (str_split (normalize_answer prediction))
        (str_split (normalize_answer ground_truth)) = 0
      \<longrightarrow> f1_score prediction ground_truth = Inr 0) \<and>
   (num_same (str_split (normalize_answer prediction))
        (str_split (normalize_answer ground_truth)) \<noteq> 0
      \<longrightarrow> 0 < length (str_split (normalize_answer prediction)) \<and>
          0 < length (str_split (normalize_answer ground_truth)) \<and>
          (\<exists>precision recall.
             token_ratio (num_same (str_split (normalize_answer prediction))
                 (str_split (normalize_answer ground_truth)))
               (str_split (normalize_answer prediction)) = Inr precision \<and>
             token_ratio (num_same (str_split (normalize_answer prediction))
                 (str_split (normalize_answer ground_truth)))
               (str_split (normalize_answer ground_truth)) = Inr recall \<and>
             0 < precision + recall \<and>
             f1_score prediction ground_truth = Inr (2 * precision * recall / (precision + recall))))"
proof -
  define pt where "pt = str_split (normalize_answer prediction)"
  define gt where "gt = str_split (normalize_answer ground_truth)"
  define n where "n = num_same pt gt"
  define pr :: rat where "pr = of_nat n / of_nat (length pt)"
  define rc :: rat where "rc = of_nat n / of_nat (length gt)"
  have le: "n \<le> length pt" "n \<le> length gt"
    unfolding n_def by (rule num_same_le_left, rule num_same_le_right)
  have zero: "f1_score prediction ground_truth = Inr 0" if "n = 0"
    using that unfolding n_def pt_def gt_def by (rule f1_score_zero)
  have pos: "token_ratio n pt = Inr pr" "token_ratio n gt = Inr rc"
    "0 < pr" "pr \<le> 1" "0 < rc" "rc \<le> 1"
    "f1_score prediction ground_truth = Inr (2 * pr * rc / (pr + rc))" if "n \<noteq> 0"
  proof -
    from that have n: "0 < n" by simp
    show a: "token_ratio n pt = Inr pr" "token_ratio n gt = Inr rc"
      unfolding pr_def rc_def using token_ratio_pos(1)[OF n] le by blast+
    show b: "0 < pr" "pr \<le> 1" "0 < rc" "rc \<le> 1"
      unfolding pr_def rc_def using token_ratio_pos(2,3)[OF n] le by blast+
    then have "pr + rc \<noteq> 0" by simp
    with that a show "f1_score prediction ground_truth = Inr (2 * pr * rc / (pr + rc))"
      unfolding n_def pt_def gt_def by (intro f1_score_pos)
  qed
  have total: "\<exists>r. f1_score prediction ground_truth = Inr r \<and> 0 \<le> r \<and> r \<le> 1"
  proof (cases "n = 0")
    case True
    with zero show ?thesis by simp
  next
    case False
    from pos[OF False] harmonic_mean_bounds[of pr rc] show ?thesis by simp
  qed
  have empty: "n = 0" if "pt = [] \<or> gt = []"
    using that le by auto
  have lens: "0 < length pt \<and> 0 < length gt" if "n \<noteq> 0"
    using that le by auto
  have divs: "\<exists>precision recall. token_ratio n pt = Inr precision \<and>
      token_ratio n gt = Inr recall \<and> 0 < precision + recall \<and>
      f1_score prediction ground_truth = Inr (2 * precision * recall / (precision + recall))"
    if "n \<noteq> 0"
  proof (intro exI conjI)
    show "token_ratio n pt = Inr pr" "token_ratio n gt = Inr rc"
      "f1_score prediction ground_truth = Inr (2 * pr * rc / (pr + rc))"
      using pos[OF that] by blast+
    show "0 < pr + rc" using pos(3,5)[OF that] by simp
  qed
  show ?thesis
    using total empty zero lens divs
    unfolding n_def pt_def gt_def by blast
qed


text \<open>An instance of each case: an empty prediction, and \<open>light blue\<close> against \<open>blue\<close>.\<close>

theorem f1_score_total_and_bounded_witness:
  "str_split (normalize_answer '''') = [] \<and>
   f1_score '''' ''blue'' = Inr 0 \<and>
   num_same (str_split (normalize_answer ''light blue''))
     (str_split (normalize_answer ''blue'')) \<noteq> 0 \<and>
   0 < length (str_split (normalize_answer ''light blue'')) \<and>
   0 < length (str_split (normalize_answer ''blue'')) \<and>
   (\<exists>r. f1_score ''light blue'' ''blue'' = Inr r \<and> 0 \<le> r \<and> r \<le> 1)"
proof -
  have h1: "str_split (normalize_answer '''') = []" by code_simp
  have h2: "num_same (str_split (normalize_answer ''light blue''))
     (str_split (normalize_answer ''blue'')) \<noteq> 0" by code_simp
  from f1_score_total_and_bounded[of "''''" "''blue''"] h1
  have "f1_score '''' ''blue'' = Inr 0" by blast
  with f1_score_total_and_bounded[of "''light blue''" "''blue''"] h1 h2
  show ?thesis by blast
qed

end
